theory Spec2Isabelle
  imports Complex_Main "HOL-Library.Sublist"
begin

section \<open>Python strings\<close>

text \<open>
  A Python \<open>str\<close> is modelled as a \<open>string\<close>. The character classes and the case
  mapping are those of Python on ASCII text: the decimal digits matched by the regular
  expression \<open>\d\<close>, the white space removed by \<open>str.strip()\<close> and matched by \<open>\s\<close>
  (code points 9 to 13, 28 to 31 and 32), the word characters matched by \<open>\w\<close>, and the
  letters \<open>a\<close> to \<open>z\<close> and \<open>A\<close> to \<open>Z\<close> as the only cased characters.
\<close>

definition ascii_lowercase :: string where
  "ascii_lowercase = ''abcdefghijklmnopqrstuvwxyz''"

definition ascii_uppercase :: string where
  "ascii_uppercase = ''ABCDEFGHIJKLMNOPQRSTUVWXYZ''"

definition digits :: string where
  "digits = ''0123456789''"

definition is_digit :: "char \<Rightarrow> bool" where
  "is_digit c = (c \<in> set digits)"

definition is_lower :: "char \<Rightarrow> bool" where
  "is_lower c = (c \<in> set ascii_lowercase)"

definition is_upper :: "char \<Rightarrow> bool" where
  "is_upper c = (c \<in> set ascii_uppercase)"

definition is_space :: "char \<Rightarrow> bool" where
  "is_space c = (c \<in> set [CHR 0x09, CHR 0x0A, CHR 0x0B, CHR 0x0C, CHR 0x0D,
                            CHR 0x1C, CHR 0x1D, CHR 0x1E, CHR 0x1F, CHR 0x20])"

definition is_word :: "char \<Rightarrow> bool" where
  "is_word c = (is_lower c \<or> is_upper c \<or> is_digit c \<or> c = CHR ''_'')"

definition to_lower :: "char \<Rightarrow> char" where
  "to_lower c = (case map_of (zip ascii_uppercase ascii_lowercase) c of
                   Some d \<Rightarrow> d | None \<Rightarrow> c)"

definition to_upper :: "char \<Rightarrow> char" where
  "to_upper c = (case map_of (zip ascii_lowercase ascii_uppercase) c of
                   Some d \<Rightarrow> d | None \<Rightarrow> c)"

text \<open>\<open>s.lower()\<close>\<close>

definition str_lower :: "string \<Rightarrow> string" where
  "str_lower s = map to_lower s"

text \<open>\<open>s.strip()\<close>: white space removed at both ends.\<close>

definition str_strip :: "string \<Rightarrow> string" where
  "str_strip s = rev (dropWhile is_space (rev (dropWhile is_space s)))"

text \<open>\<open>s.rstrip(c)\<close> for a one-character argument.\<close>

definition str_rstrip :: "char \<Rightarrow> string \<Rightarrow> string" where
  "str_rstrip c s = rev (dropWhile (\<lambda>x. x = c) (rev s))"

text \<open>\<open>s.split(c)\<close> for a one-character separator: never an empty list.\<close>

fun str_split :: "char \<Rightarrow> string \<Rightarrow> string list" where
  "str_split c [] = [[]]"
| "str_split c (x # xs) =
     (if x = c then [] # str_split c xs
      else (case str_split c xs of
              [] \<Rightarrow> [[x]]
            | p # ps \<Rightarrow> (x # p) # ps))"

text \<open>
  \<open>s.replace(old, new)\<close>: the occurrences of \<open>old\<close> are replaced from the left and do
  not overlap; an empty \<open>old\<close> matches before every character and at the end.
\<close>

function str_replace :: "string \<Rightarrow> string \<Rightarrow> string \<Rightarrow> string" where
  "str_replace old new s =
     (if s = [] then (if old = [] then new else [])
      else if old = [] then new @ hd s # str_replace old new (tl s)
      else if prefix old s then new @ str_replace old new (drop (length old) s)
      else hd s # str_replace old new (tl s))"
  by pat_completeness auto
termination
  by (relation "measure (\<lambda>(old, new, s). length s)") auto

declare str_replace.simps [simp del]

text \<open>
  \<open>s.title()\<close>: a cased character is put in upper case when the character before it is
  not cased, in lower case otherwise.
\<close>

fun title_from :: "bool \<Rightarrow> string \<Rightarrow> string" where
  "title_from previous_is_cased [] = []"
| "title_from previous_is_cased (c # cs) =
     (if is_lower c \<or> is_upper c
      then (if previous_is_cased then to_lower c else to_upper c) # title_from True cs
      else c # title_from False cs)"

definition str_title :: "string \<Rightarrow> string" where
  "str_title s = title_from False s"

text \<open>\<open>sub in s\<close> on strings.\<close>

fun str_in :: "string \<Rightarrow> string \<Rightarrow> bool" where
  "str_in sub [] = (sub = [])"
| "str_in sub (c # cs) = (prefix sub (c # cs) \<or> str_in sub cs)"

section \<open>Assessment records\<close>

text \<open>
  An assessment is the dictionary built in \<open>scrape_shl_assessments\<close>, with the fields
  and types of the \<open>Assessment\<close> model.
\<close>

record assessment =
  name :: string
  url :: string
  remote_testing :: bool
  adaptive_support :: bool
  duration :: string
  test_type :: string

definition default_assessments :: "assessment list" where
  "default_assessments =
     [\<lparr>name = ''Verify Interactive'',
       url = ''https://www.shl.com/solutions/products/verify-interactive/'',
       remote_testing = True, adaptive_support = True,
       duration = ''10-15 minutes'', test_type = ''Cognitive ability''\<rparr>,
      \<lparr>name = ''Occupational Personality Questionnaire (OPQ)'',
       url = ''https://www.shl.com/solutions/products/opq-personality-test/'',
       remote_testing = True, adaptive_support = False,
       duration = ''25-40 minutes'', test_type = ''Personality assessment''\<rparr>]"

section \<open>Removing duplicate URLs and repairing names\<close>

text \<open>\<open>part.replace("-", " ").replace("%20", " ").strip()\<close>, then \<open>.title()\<close>.\<close>

definition slug_name :: "string \<Rightarrow> string" where
  "slug_name part =
     str_title (str_strip (str_replace ''%20'' '' '' (str_replace ''-'' '' '' part)))"

text \<open>\<open>not assessment["name"] or assessment["name"] == "Unknown Product"\<close>\<close>

definition unnamed :: "assessment \<Rightarrow> bool" where
  "unnamed a = (name a = [] \<or> name a = ''Unknown Product'')"

text \<open>
  The body of the \<open>if\<close> at the head of the loop in \<open>scrape_shl_assessments\<close> that
  builds \<open>unique_assessments\<close>: an assessment without a valid name gets the last segment
  of its URL that is not empty, not \<open>solutions\<close>, not \<open>products\<close> and not in
  \<open>seen_urls\<close>; when the name is still not valid it becomes the default built from the
  test type.
\<close>

definition ensure_name :: "string set \<Rightarrow> assessment \<Rightarrow> assessment" where
  "ensure_name seen_urls a =
     (if unnamed a then
        (let url_parts = str_split CHR ''/'' (str_rstrip CHR ''/'' (url a));
             a1 = (case find (\<lambda>part. part \<noteq> [] \<and> part \<noteq> ''solutions''
                                    \<and> part \<noteq> ''products'' \<and> part \<notin> seen_urls)
                          (rev url_parts) of
                     Some part \<Rightarrow> a\<lparr>name := slug_name part\<rparr>
                   | None \<Rightarrow> a)
         in if unnamed a1 then a1\<lparr>name := ''SHL Assessment - '' @ test_type a1\<rparr> else a1)
      else a)"

text \<open>
  The loop over \<open>assessments\<close>, with its two variables \<open>unique_assessments\<close> and
  \<open>seen_urls\<close>.
\<close>

fun dedup_loop :: "assessment list \<Rightarrow> assessment list \<Rightarrow> string set \<Rightarrow> assessment list" where
  "dedup_loop [] unique seen_urls = unique"
| "dedup_loop (a # rest) unique seen_urls =
     (if url a \<notin> seen_urls
      then dedup_loop rest (unique @ [ensure_name seen_urls a]) (insert (url a) seen_urls)
      else dedup_loop rest unique seen_urls)"

definition unique_assessments :: "assessment list \<Rightarrow> assessment list" where
  "unique_assessments assessments = dedup_loop assessments [] {}"

section \<open>Product names at scraping time\<close>

text \<open>
  The name of a scraped page, from \<open>scrape_shl_assessments\<close>. The variable \<open>name\<close>
  starts as \<open>None\<close>; a page title that is not empty gives it the title without the
  site's suffixes.
\<close>

definition title_name :: "string option \<Rightarrow> string option" where
  "title_name page_title =
     (case page_title of
        None \<Rightarrow> None
      | Some t \<Rightarrow>
          if t = [] then None
          else Some (str_strip (str_replace ''SHL'' []
                      (str_replace ''SHL |'' [] (str_replace '' | SHL'' [] t)))))"

text \<open>
  The last segment of the URL that is not empty, not \<open>solutions\<close> and not
  \<open>products\<close>, as a readable name; \<open>None\<close> when the loop over the reversed segments
  ends without a \<open>break\<close>.
\<close>

definition url_name :: "string \<Rightarrow> string option" where
  "url_name u =
     map_option slug_name
       (find (\<lambda>part. part \<noteq> [] \<and> part \<noteq> ''solutions'' \<and> part \<noteq> ''products'')
          (rev (str_split CHR ''/'' (str_rstrip CHR ''/'' u))))"

definition generic_names :: "string list" where
  "generic_names = [''home'', ''solutions'', ''products'', ''assessments'']"

text \<open>The final fallback: the product category that the URL indicates.\<close>

definition category_name :: "string \<Rightarrow> string" where
  "category_name u =
     (if str_in ''personality'' (str_lower u) then ''Personality Assessment''
      else if str_in ''cognitive'' (str_lower u) then ''Cognitive Assessment''
      else if str_in ''skills'' (str_lower u) then ''Skills Assessment''
      else if str_in ''video-interviews'' (str_lower u) then ''Video Interview Assessment''
      else if str_in ''360'' (str_lower u) then ''360 Feedback Assessment''
      else ''SHL Assessment'')"

text \<open>\<open>not name or name == ""\<close>\<close>

definition no_name :: "string option \<Rightarrow> bool" where
  "no_name n = (n = None \<or> n = Some [])"

definition resolve_name :: "string option \<Rightarrow> string \<Rightarrow> string" where
  "resolve_name page_title u =
     (let name0 = title_name page_title;
          name1 = (if no_name name0
                   then (case url_name u of Some n \<Rightarrow> Some n | None \<Rightarrow> name0)
                   else name0)
      in case name1 of
           None \<Rightarrow> category_name u
         | Some n \<Rightarrow>
             if n = [] \<or> str_lower n \<in> set generic_names then category_name u else n)"

section \<open>Scraping\<close>

text \<open>
  What the language model's reply gives for one page: the value of each key of
  \<open>assessment_details\<close>, \<open>None\<close> for a key that is missing.
\<close>

record assessment_details =
  d_remote_testing :: "bool option"
  d_adaptive_support :: "bool option"
  d_duration :: "string option"
  d_test_type :: "string option"

text \<open>
  The outcome of the body of the loop over \<open>shl_urls\<close> for one URL: an exception, which
  is logged and skips the URL, or the page's title together with the details parsed from
  the reply (\<open>None\<close> when the reply holds no JSON object or it does not parse).
\<close>

datatype page_result = PageError | Page "string option" "assessment_details option"

definition fallback_details :: assessment_details where
  "fallback_details =
     \<lparr>d_remote_testing = Some True, d_adaptive_support = Some False,
      d_duration = Some ''20-30 minutes'', d_test_type = Some ''Assessment''\<rparr>"

definition make_assessment :: "string \<Rightarrow> string option \<Rightarrow> assessment_details \<Rightarrow> assessment" where
  "make_assessment u page_title details =
     \<lparr>name = resolve_name page_title u,
      url = u,
      remote_testing = (case d_remote_testing details of Some b \<Rightarrow> b | None \<Rightarrow> True),
      adaptive_support = (case d_adaptive_support details of Some b \<Rightarrow> b | None \<Rightarrow> False),
      duration = (case d_duration details of Some d \<Rightarrow> d | None \<Rightarrow> ''20-30 minutes''),
      test_type = (case d_test_type details of Some t \<Rightarrow> t | None \<Rightarrow> ''Assessment'')\<rparr>"

fun scrape_pages :: "(string \<times> page_result) list \<Rightarrow> assessment list" where
  "scrape_pages [] = []"
| "scrape_pages ((u, PageError) # rest) = scrape_pages rest"
| "scrape_pages ((u, Page page_title details) # rest) =
     make_assessment u page_title
       (case details of Some d \<Rightarrow> d | None \<Rightarrow> fallback_details) # scrape_pages rest"

text \<open>
  \<open>scrape_shl_assessments\<close>, given the URLs of \<open>shl_urls\<close> in order, each with the outcome
  of its page.
\<close>

definition scrape_shl_assessments :: "(string \<times> page_result) list \<Rightarrow> assessment list" where
  "scrape_shl_assessments pages =
     (let assessments = scrape_pages pages
      in unique_assessments (if assessments = [] then default_assessments else assessments))"

section \<open>Errors\<close>

text \<open>The exceptions of the code, and the two HTTP errors of the recommendation.\<close>

datatype error =
    AI_model_error
  | Parse_failure
  | Value_error
  | Overflow_error
  | Type_error
  | Cache_read_error
  | Cache_write_error

section \<open>Python floats\<close>

text \<open>
  A Python float is an IEEE 754 binary64 number: \<open>Finite m e\<close> stands for the number
  \<open>m * 2^e\<close>, and there are the two infinities and the value that is not a number. A
  number is a float when it is some \<open>m * 2^e\<close> with \<open>|m| < 2^53\<close> and
  \<open>-1074 \<le> e \<le> 971\<close>; arithmetic rounds its exact result to the nearest float, to the
  one with the even mantissa in case of a tie, and to an infinity from \<open>2^1024\<close> on.
\<close>

datatype pyfloat = Finite int int | PosInf | NegInf | NaN









section \<open>The cache file\<close>

text \<open>
  The value under the key \<open>timestamp\<close> as \<open>json.load\<close> returns it: an integer (the
  JSON values \<open>true\<close> and \<open>false\<close> are the integers 1 and 0 in Python), a float, or a
  value from which a time cannot be subtracted (a string, \<open>null\<close>, an array or an
  object).
\<close>

datatype timestamp_value = IntNumber int | FloatNumber pyfloat | NotNumber

text \<open>
  The state of \<open>CACHE_FILE\<close>: absent; present with a content that \<open>json.load\<close> rejects
  or that is not a JSON object; or an object, with the values under the keys
  \<open>timestamp\<close> and \<open>assessments\<close> (\<open>None\<close> for a missing key).
\<close>

datatype cache_file =
    NoFile
  | Unreadable
  | Envelope "timestamp_value option" "assessment list option"





section \<open>Refreshing the cache\<close>

record refresh_response =
  count :: nat
  unnamed_count :: nat

text \<open>
  \<open>refresh_assessments\<close>: the response, the cache file afterwards, and whether
  \<open>fix_assessment_names\<close> was added to the background tasks. The file is written outside
  any \<open>try\<close>, so a failed write is an error of the request.
\<close>

definition refresh_assessments ::
  "cache_file \<Rightarrow> (string \<times> page_result) list \<Rightarrow> pyfloat \<Rightarrow> bool
     \<Rightarrow> error + (refresh_response \<times> cache_file \<times> bool)" where
  "refresh_assessments cache pages save_time write_ok =
     (let assessments = scrape_shl_assessments pages;
          n = length (filter (\<lambda>a. name a = ''Unknown Product'') assessments)
      in if write_ok
         then Inr (\<lparr>count = length assessments, unnamed_count = n\<rparr>,
                   Envelope (Some (FloatNumber save_time)) (Some assessments),
                   0 < n)
         else Inl Cache_write_error)"

section \<open>Repairing names in the cache file\<close>

text \<open>\<open>re.sub(r'[^\w\s]', ' ', s)\<close>\<close>

definition clean_special :: "string \<Rightarrow> string" where
  "clean_special s = map (\<lambda>c. if is_word c \<or> is_space c then c else CHR '' '') s"

text \<open>\<open>re.sub(r'\s+', ' ', s)\<close>: every maximal run of white space becomes one space.\<close>

function normalize_spaces :: "string \<Rightarrow> string" where
  "normalize_spaces [] = []"
| "normalize_spaces (c # cs) =
     (if is_space c then CHR '' '' # normalize_spaces (dropWhile is_space cs)
      else c # normalize_spaces cs)"
  by pat_completeness auto
termination
  by (relation "measure length") (auto simp: length_dropWhile_le less_Suc_eq_le)

text \<open>\<open>name or fallback\<close>\<close>

definition name_or :: "string option \<Rightarrow> string \<Rightarrow> string option" where
  "name_or n fallback = (if no_name n then Some fallback else n)"

text \<open>The new name that \<open>fix_assessment_names\<close> computes for an assessment.\<close>

definition fixed_name :: "assessment \<Rightarrow> string" where
  "fixed_name a =
     (let url_parts = str_split CHR ''/'' (str_rstrip CHR ''/'' (url a));
          name0 = map_option
                    (\<lambda>part. str_title (str_strip (normalize_spaces (clean_special
                               (str_replace ''%20'' '' '' (str_replace ''-'' '' '' part))))))
                    (find (\<lambda>part. part \<noteq> [] \<and>
                              part \<notin> set [[], ''solutions'', ''products'', ''assessments'', ''view''])
                       (rev url_parts));
          name1 = (if str_in ''personality'' (str_lower (url a))
                     then name_or name0 ''Personality Assessment''
                   else if str_in ''cognitive'' (str_lower (url a))
                     then name_or name0 ''Cognitive Assessment''
                   else if str_in ''video-interview'' (str_lower (url a))
                     then name_or name0 ''Video Interview''
                   else if str_in ''360'' (str_lower (url a))
                     then name_or name0 ''360 Feedback Assessment''
                   else name0)
      in case name_or name1 (''SHL Assessment - '' @ test_type a) of
           Some n \<Rightarrow> n
         | None \<Rightarrow> [])"

definition fix_assessment :: "assessment \<Rightarrow> assessment" where
  "fix_assessment a = (if name a = ''Unknown Product'' then a\<lparr>name := fixed_name a\<rparr> else a)"

text \<open>
  \<open>fix_assessment_names\<close>: the cache file afterwards, or the exception that ends the
  task (the file is then as it was before the write).
\<close>

definition fix_assessment_names :: "cache_file \<Rightarrow> bool \<Rightarrow> error + cache_file" where
  "fix_assessment_names cache write_ok =
     (case cache of
        NoFile \<Rightarrow> Inr NoFile
      | Unreadable \<Rightarrow> Inl Cache_read_error
      | Envelope ts recs \<Rightarrow>
          if write_ok then Inr (Envelope ts (map_option (map fix_assessment) recs))
          else Inl Cache_write_error)"

section \<open>Sets of natural numbers in CPython\<close>

text \<open>
  \<open>list(set(xs))\<close> for a list of non-negative integers, as CPython computes it: a hash
  table with open addressing, filled by \<open>set_add_entry\<close> in the order of the list,
  resized by \<open>set_table_resize\<close>, and read from the first slot to the last. The entries
  are the keys; the hash of a key is its value modulo \<open>2^61 - 1\<close>, and no key is ever
  removed, so the table has no dummy entry and \<open>used\<close> is \<open>fill\<close>.
\<close>

definition py_hash :: "nat \<Rightarrow> nat" where
  "py_hash n = n mod (2 ^ 61 - 1)"

definition LINEAR_PROBES :: nat where
  "LINEAR_PROBES = 9"

definition PySet_MINSIZE :: nat where
  "PySet_MINSIZE = 8"

text \<open>
  The inner loop of a probe: the entries from \<open>j\<close> on, \<open>probes + 1\<close> of them at most,
  up to the first one that is a hit.
\<close>

function probe_run :: "(nat option \<Rightarrow> bool) \<Rightarrow> nat option list \<Rightarrow> nat \<Rightarrow> nat \<Rightarrow> nat option" where
  "probe_run hit entries j probes =
     (if hit (entries ! j) then Some j
      else if probes = 0 then None
      else probe_run hit entries (j + 1) (probes - 1))"
  by pat_completeness auto
termination
  by (relation "measure (\<lambda>(hit, entries, j, probes). probes)") auto

declare probe_run.simps [simp del]

text \<open>
  The outer loop of a probe, from slot \<open>i\<close>: \<open>perturb >>= PERTURB_SHIFT\<close> and
  \<open>i = (i * 5 + 1 + perturb) & mask\<close> until a run finds a hit. The loop of the C code has
  no bound; here it gives up with \<open>None\<close> after \<open>fuel\<close> runs. The fuel that
  \<open>probe_fuel\<close> gives is never used up on a table with an unused entry
  (\<open>cpython_list_set_correct\<close> below).
\<close>

function probe ::
  "nat \<Rightarrow> (nat option \<Rightarrow> bool) \<Rightarrow> nat option list \<Rightarrow> nat \<Rightarrow> nat \<Rightarrow> nat option" where
  "probe fuel hit entries i perturb =
     (if fuel = 0 then None
      else (case probe_run hit entries i
                   (if i + LINEAR_PROBES \<le> length entries - 1 then LINEAR_PROBES else 0) of
              Some j \<Rightarrow> Some j
            | None \<Rightarrow>
                probe (fuel - 1) hit entries
                  ((i * 5 + 1 + perturb div 32) mod length entries) (perturb div 32)))"
  by pat_completeness auto
termination
  by (relation "measure (\<lambda>(fuel, hit, entries, i, perturb). fuel)") auto

declare probe.simps [simp del]

text \<open>
  Enough runs for every table: \<open>perturb\<close> is zero after 13 shifts, and from then on the
  slots visited repeat after at most as many runs as the table has slots.
\<close>

definition probe_fuel :: "nat option list \<Rightarrow> nat" where
  "probe_fuel entries = length entries + 13"

record setobject =
  so_table :: "nat option list"
  so_fill :: nat

text \<open>\<open>set_insert_clean\<close>: the key goes to the first unused entry that the probe meets.\<close>

definition set_insert_clean :: "nat option list \<Rightarrow> nat \<Rightarrow> nat option list option" where
  "set_insert_clean entries key =
     (case probe (probe_fuel entries) (\<lambda>e. e = None) entries
             (py_hash key mod length entries) (py_hash key) of
        None \<Rightarrow> None
      | Some j \<Rightarrow> Some (entries[j := Some key]))"

fun insert_all_clean :: "nat option list \<Rightarrow> nat option list \<Rightarrow> nat option list option" where
  "insert_all_clean newtable [] = Some newtable"
| "insert_all_clean newtable (None # oldtable) = insert_all_clean newtable oldtable"
| "insert_all_clean newtable (Some key # oldtable) =
     (case set_insert_clean newtable key of
        None \<Rightarrow> None
      | Some t \<Rightarrow> insert_all_clean t oldtable)"

text \<open>The smallest table size above \<open>minused\<close>, doubling from \<open>PySet_MINSIZE\<close>.\<close>

function new_size :: "nat \<Rightarrow> nat \<Rightarrow> nat" where
  "new_size newsize minused =
     (if 0 < newsize \<and> newsize \<le> minused then new_size (2 * newsize) minused else newsize)"
  by pat_completeness auto
termination
  by (relation "measure (\<lambda>(newsize, minused). minused + 1 - newsize)") auto

declare new_size.simps [simp del]

definition set_table_resize :: "setobject \<Rightarrow> nat \<Rightarrow> setobject option" where
  "set_table_resize so minused =
     map_option (\<lambda>t. so\<lparr>so_table := t\<rparr>)
       (insert_all_clean (replicate (new_size PySet_MINSIZE minused) None) (so_table so))"

text \<open>
  \<open>set_add_entry\<close>: a key that is in the table leaves it as it is; a new key takes the
  unused entry found, and the table is resized when \<open>fill * 5 < mask * 3\<close> fails.
\<close>

definition set_add_entry :: "setobject \<Rightarrow> nat \<Rightarrow> setobject option" where
  "set_add_entry so key =
     (case probe (probe_fuel (so_table so)) (\<lambda>e. e = None \<or> e = Some key) (so_table so)
             (py_hash key mod length (so_table so)) (py_hash key) of
        None \<Rightarrow> None
      | Some j \<Rightarrow>
          if so_table so ! j = Some key then Some so
          else
            (let so1 = \<lparr>so_table = (so_table so)[j := Some key], so_fill = so_fill so + 1\<rparr>
             in if so_fill so1 * 5 < (length (so_table so1) - 1) * 3 then Some so1
                else set_table_resize so1
                       (if 50000 < so_fill so1 then so_fill so1 * 2 else so_fill so1 * 4)))"

fun set_update :: "setobject \<Rightarrow> nat list \<Rightarrow> setobject option" where
  "set_update so [] = Some so"
| "set_update so (key # keys) =
     (case set_add_entry so key of
        None \<Rightarrow> None
      | Some so1 \<Rightarrow> set_update so1 keys)"

definition empty_set :: setobject where
  "empty_set = \<lparr>so_table = replicate PySet_MINSIZE None, so_fill = 0\<rparr>"

text \<open>
  The keys of the set built from \<open>xs\<close>, in the order of the table's slots. The case
  \<open>None\<close> stands for a loop that does not end; it does not occur.
\<close>

definition cpython_list_set :: "nat list \<Rightarrow> nat list" where
  "cpython_list_set xs =
     (case set_update empty_set xs of
        Some so \<Rightarrow> List.map_filter (\<lambda>e. e) (so_table so)
      | None \<Rightarrow> [])"

section \<open>Recommendations\<close>

text \<open>
  \<open>re.findall(r'\d+', ids_text)\<close>: the maximal runs of digits, from left to right.
  \<open>digit_run\<close> holds the digits of the run being read.
\<close>

fun digit_runs :: "string \<Rightarrow> string \<Rightarrow> string list" where
  "digit_runs digit_run [] = (if digit_run = [] then [] else [digit_run])"
| "digit_runs digit_run (c # cs) =
     (if is_digit c then digit_runs (digit_run @ [c]) cs
      else if digit_run = [] then digit_runs [] cs
      else digit_run # digit_runs [] cs)"

definition findall_digits :: "string \<Rightarrow> string list" where
  "findall_digits ids_text = digit_runs [] ids_text"

definition digit_value :: "char \<Rightarrow> nat" where
  "digit_value c = (case map_of (zip digits [0, 1, 2, 3, 4, 5, 6, 7, 8, 9]) c of
                      Some d \<Rightarrow> d | None \<Rightarrow> 0)"

text \<open>
  \<open>int(s)\<close> for a run of digits. \<open>max_str_digits\<close> is the interpreter's limit on the
  length of a decimal string (\<open>sys.get_int_max_str_digits()\<close>: 4300 unless configured, 0
  for no limit, and no limit before Python 3.11); a longer run of more than 640 digits
  raises \<open>ValueError\<close>.
\<close>

definition py_int :: "nat \<Rightarrow> string \<Rightarrow> error + nat" where
  "py_int max_str_digits s =
     (if 640 < length s \<and> 0 < max_str_digits \<and> max_str_digits < length s
      then Inl Value_error
      else Inr (foldl (\<lambda>n c. 10 * n + digit_value c) 0 s))"

text \<open>\<open>[int(id) for id in ids]\<close>: the first exception ends the comprehension.\<close>

fun int_list :: "nat \<Rightarrow> string list \<Rightarrow> error + nat list" where
  "int_list max_str_digits [] = Inr []"
| "int_list max_str_digits (s # ss) =
     (case py_int max_str_digits s of
        Inl e \<Rightarrow> Inl e
      | Inr n \<Rightarrow>
          (case int_list max_str_digits ss of
             Inl e \<Rightarrow> Inl e
           | Inr ns \<Rightarrow> Inr (n # ns)))"

text \<open>The outcome of \<open>model.generate_content(prompt)\<close>: an exception, or the reply's text.\<close>

datatype model_response = Model_error | Reply string

text \<open>
  \<open>get_recommendations_async\<close>, after \<open>assessments_data\<close> has been fetched. \<open>list_set\<close>
  is the interpreter's \<open>list(set(...))\<close>: Python leaves the order in which a set is
  iterated to the implementation. An identifier read from digits is not negative, so the
  test \<open>0 <= id\<close> of the loop always holds.
\<close>

definition get_recommendations_async ::
  "(nat list \<Rightarrow> nat list) \<Rightarrow> nat \<Rightarrow> assessment list \<Rightarrow> model_response \<Rightarrow> error + assessment list" where
  "get_recommendations_async list_set max_str_digits assessments_data response =
     (case response of
        Model_error \<Rightarrow> Inl AI_model_error
      | Reply ids_text \<Rightarrow>
          (case int_list max_str_digits (findall_digits ids_text) of
             Inl e \<Rightarrow> Inl Parse_failure
           | Inr ints \<Rightarrow>
               (let unique_ids = take 10 (list_set ints)
                in Inr (map (\<lambda>id. assessments_data ! id)
                          (filter (\<lambda>id. id < length assessments_data) unique_ids)))))"

text \<open>
  The selection as the specification words it: the integers parsed are deduplicated,
  those outside the catalog are discarded, and at most ten are kept, in ascending order.
\<close>

definition spec_selection :: "assessment list \<Rightarrow> nat list \<Rightarrow> assessment list" where
  "spec_selection assessments_data ints =
     map (\<lambda>id. assessments_data ! id)
       (take 10 (sort (remdups (filter (\<lambda>id. id < length assessments_data) ints))))"

section \<open>Notions for the proofs about the hash table\<close>

text \<open>
  The slot where \<open>set_add_entry\<close> looks for a key: the first entry on the key's probe
  sequence that is unused or holds the key.
\<close>

definition lookup :: "nat option list \<Rightarrow> nat \<Rightarrow> nat option" where
  "lookup t key =
     probe (probe_fuel t) (\<lambda>e. e = None \<or> e = Some key) t
       (py_hash key mod length t) (py_hash key)"

text \<open>The number of entries in use.\<close>

definition used :: "nat option list \<Rightarrow> nat" where
  "used t = length (filter (\<lambda>e. e \<noteq> None) t)"

text \<open>
  A well-formed table: its size is a power of two, no key is in two entries, and the
  lookup of every key of the table ends at an entry that holds it.
\<close>

definition table_inv :: "nat option list \<Rightarrow> bool" where
  "table_inv t \<longleftrightarrow>
     (\<exists>k. length t = 2 ^ k) \<and>
     distinct (filter (\<lambda>e. e \<noteq> None) t) \<and>
     (\<forall>key. Some key \<in> set t \<longrightarrow> (\<exists>s. lookup t key = Some s \<and> t ! s = Some key))"

text \<open>A well-formed set: \<open>fill\<close> counts the entries in use and is below the load limit.\<close>

definition set_inv :: "setobject \<Rightarrow> bool" where
  "set_inv so \<longleftrightarrow>
     table_inv (so_table so) \<and>
     so_fill so = used (so_table so) \<and>
     so_fill so * 5 < (length (so_table so) - 1) * 3"

section \<open>Inputs of the examples\<close>

text \<open>
  The two default assessments, then a record that repeats the URL of the first under
  another name.
\<close>

definition repeated_url_example :: "assessment list" where
  "repeated_url_example =
     default_assessments @
     [\<lparr>name = ''Verify G+'',
       url = ''https://www.shl.com/solutions/products/verify-interactive/'',
       remote_testing = False, adaptive_support = False,
       duration = ''36 minutes'', test_type = ''Ability''\<rparr>]"

text \<open>A run of the scraper in which the page of every URL raises an exception.\<close>

definition failed_pages_example :: "(string \<times> page_result) list" where
  "failed_pages_example =
     [(''https://www.shl.com/solutions/products/'', PageError),
      (''https://www.shl.com/solutions/products/opq/'', PageError)]"

text \<open>
  A run of the scraper with one page, whose title and URL both give the placeholder name,
  and whose reply from the language model holds no JSON object.
\<close>

definition placeholder_page_example :: "(string \<times> page_result) list" where
  "placeholder_page_example =
     [(''https://www.shl.com/solutions/products/unknown-product/'',
       Page (Some ''Unknown Product | SHL'') None)]"

text \<open>A cached list with one assessment under the placeholder name.\<close>

definition placeholder_cache_example :: "assessment list" where
  "placeholder_cache_example =
     [\<lparr>name = ''Verify Interactive'',
       url = ''https://www.shl.com/solutions/products/verify-interactive/'',
       remote_testing = True, adaptive_support = True,
       duration = ''10-15 minutes'', test_type = ''Cognitive ability''\<rparr>,
      \<lparr>name = ''Unknown Product'',
       url = ''https://www.shl.com/solutions/products/view/job-focused-assessments/'',
       remote_testing = True, adaptive_support = False,
       duration = ''20-30 minutes'', test_type = ''Assessment''\<rparr>]"

section \<open>Properties of the loop that removes duplicates\<close>

lemma dedup_loop_acc: "dedup_loop xs unique seen = unique @ dedup_loop xs [] seen"
proof (induction xs arbitrary: unique seen)
  case Nil
  show ?case by simp
next
  case (Cons a rest)
  show ?case
    using Cons [of "unique @ [ensure_name seen a]" "insert (url a) seen"]
      Cons [of "[ensure_name seen a]" "insert (url a) seen"] Cons [of unique seen]
    by simp
qed

lemma dedup_loop_Cons:
  "dedup_loop (a # rest) [] seen =
     (if url a \<notin> seen then ensure_name seen a # dedup_loop rest [] (insert (url a) seen)
      else dedup_loop rest [] seen)"
  using dedup_loop_acc [of rest "[ensure_name seen a]" "insert (url a) seen"] by simp

declare dedup_loop.simps(2) [simp del]

lemma url_ensure_name: "url (ensure_name seen a) = url a"
  by (simp add: ensure_name_def Let_def split: option.splits)

lemma ensure_name_named: "\<not> unnamed (ensure_name seen a)"
  by (simp add: ensure_name_def unnamed_def Let_def split: option.splits)

lemma ensure_name_frame: "ensure_name seen a = a\<lparr>name := name (ensure_name seen a)\<rparr>"
  by (simp add: ensure_name_def Let_def split: option.splits)

lemma ensure_name_id: "\<not> unnamed a \<Longrightarrow> ensure_name seen a = a"
  by (simp add: ensure_name_def)

lemma urls_dedup_loop: "url ` set (dedup_loop xs [] seen) = url ` set xs - seen"
  by (induction xs arbitrary: seen) (auto simp: dedup_loop_Cons url_ensure_name)

lemma distinct_dedup_loop: "distinct (map url (dedup_loop xs [] seen))"
proof (induction xs arbitrary: seen)
  case Nil
  show ?case by simp
next
  case (Cons a rest)
  have "url a \<notin> url ` set (dedup_loop rest [] (insert (url a) seen))"
    by (simp add: urls_dedup_loop)
  with Cons show ?case
    by (simp add: dedup_loop_Cons url_ensure_name)
qed

lemma subseq_dedup_loop: "subseq (map url (dedup_loop xs [] seen)) (map url xs)"
  by (induction xs arbitrary: seen)
    (auto simp: dedup_loop_Cons url_ensure_name intro: list_emb_Cons)

lemma dedup_loop_first:
  "r \<in> set (dedup_loop xs [] seen) \<Longrightarrow>
     \<exists>a. find (\<lambda>a. url a = url r) xs = Some a \<and> r = a\<lparr>name := name r\<rparr>
        \<and> (\<not> unnamed a \<longrightarrow> r = a)"
proof (induction xs arbitrary: seen)
  case Nil
  then show ?case by simp
next
  case (Cons a rest)
  show ?case
  proof (cases "url a \<notin> seen \<and> r = ensure_name seen a")
    case True
    then show ?thesis
      using ensure_name_frame [of seen a] ensure_name_id [of a seen]
      by (simp add: url_ensure_name)
  next
    case False
    then obtain s where in_rest: "r \<in> set (dedup_loop rest [] s)" and sub: "url a \<in> s"
      using Cons.prems by (auto simp: dedup_loop_Cons split: if_splits)
    have "url r \<in> url ` set (dedup_loop rest [] s)"
      using in_rest by blast
    then have "url r \<noteq> url a"
      using sub by (auto simp: urls_dedup_loop)
    then show ?thesis
      using Cons.IH [OF in_rest] by auto
  qed
qed

lemma dedup_loop_named: "r \<in> set (dedup_loop xs [] seen) \<Longrightarrow> \<not> unnamed r"
  by (induction xs arbitrary: seen)
    (auto simp: dedup_loop_Cons ensure_name_named split: if_splits)

lemma dedup_loop_fixed:
  "distinct (map url ys) \<Longrightarrow> \<forall>a \<in> set ys. \<not> unnamed a \<Longrightarrow> url ` set ys \<inter> seen = {} \<Longrightarrow>
     dedup_loop ys [] seen = ys"
proof (induction ys arbitrary: seen)
  case Nil
  show ?case by simp
next
  case (Cons a rest)
  have "url ` set rest \<inter> insert (url a) seen = {}"
    using Cons.prems by auto
  then have "dedup_loop rest [] (insert (url a) seen) = rest"
    using Cons.prems by (intro Cons.IH) auto
  then show ?case
    using Cons.prems by (auto simp: dedup_loop_Cons ensure_name_id)
qed

lemma unique_assessments_default: "unique_assessments default_assessments = default_assessments"
  unfolding unique_assessments_def
  by (rule dedup_loop_fixed) (simp_all add: default_assessments_def unnamed_def)

text \<open>
  C2: the list that the loop builds holds no URL twice; it holds every URL of the input,
  in the order of the input; and the assessment kept for a URL is the first of the input
  with that URL. The loop may have given it a name: it is the input's assessment itself
  when that one had a valid name, and differs from it in the name at most otherwise.
\<close>

theorem unique_assessments_first_per_url:
  "distinct (map url (unique_assessments xs)) \<and>
   url ` set (unique_assessments xs) = url ` set xs \<and>
   subseq (map url (unique_assessments xs)) (map url xs) \<and>
   (\<forall>r \<in> set (unique_assessments xs).
      \<exists>a. find (\<lambda>a. url a = url r) xs = Some a \<and> r = a\<lparr>name := name r\<rparr>
         \<and> (\<not> unnamed a \<longrightarrow> r = a))"
  unfolding unique_assessments_def
  using distinct_dedup_loop [of xs "{}"] urls_dedup_loop [of xs "{}"]
    subseq_dedup_loop [of xs "{}"] dedup_loop_first [of _ xs "{}"]
  by simp

lemma unique_repeated_url_example: "unique_assessments repeated_url_example = default_assessments"
  by (simp add: unique_assessments_def repeated_url_example_def default_assessments_def
      dedup_loop_Cons ensure_name_def unnamed_def)

theorem unique_assessments_first_per_url_witness:
  "unique_assessments repeated_url_example = default_assessments \<and>
   distinct (map url (unique_assessments repeated_url_example)) \<and>
   url ` set (unique_assessments repeated_url_example) = url ` set repeated_url_example \<and>
   find (\<lambda>a. url a = url (default_assessments ! 0)) repeated_url_example
     = Some (default_assessments ! 0)"
  using unique_assessments_first_per_url [of repeated_url_example]
  by (simp add: unique_repeated_url_example)
    (simp add: repeated_url_example_def default_assessments_def)

text \<open>
  C9: the loop is idempotent: run on its own result, it returns that result.
\<close>

theorem unique_assessments_idempotent:
  "unique_assessments (unique_assessments xs) = unique_assessments xs"
  unfolding unique_assessments_def
  by (rule dedup_loop_fixed) (simp_all add: distinct_dedup_loop dedup_loop_named)

section \<open>Properties of the scraper\<close>

lemma scrape_pages_empty_iff:
  "scrape_pages pages = [] \<longleftrightarrow> (\<forall>p \<in> set pages. snd p = PageError)"
  by (induction pages rule: scrape_pages.induct) auto

lemma unique_assessments_not_empty: "xs \<noteq> [] \<Longrightarrow> unique_assessments xs \<noteq> []"
proof
  assume "xs \<noteq> []" and "unique_assessments xs = []"
  then have "url ` set xs = {}"
    using urls_dedup_loop [of xs "{}"] by (simp add: unique_assessments_def)
  with \<open>xs \<noteq> []\<close> show False by simp
qed

text \<open>
  C6: when the page of every URL has failed, so that no assessment was scraped,
  \<open>scrape_shl_assessments\<close> returns the two default assessments; and it never returns an
  empty list.
\<close>

theorem scrape_defaults_when_all_pages_fail:
  "((\<forall>p \<in> set pages. snd p = PageError) \<longrightarrow>
      scrape_shl_assessments pages = default_assessments) \<and>
   scrape_shl_assessments pages \<noteq> []"
proof -
  have "default_assessments \<noteq> []"
    by (simp add: default_assessments_def)
  then show ?thesis
    by (simp add: scrape_shl_assessments_def Let_def scrape_pages_empty_iff [symmetric]
        unique_assessments_default unique_assessments_not_empty)
qed

theorem scrape_defaults_when_all_pages_fail_witness:
  "scrape_shl_assessments failed_pages_example = default_assessments \<and>
   scrape_shl_assessments failed_pages_example \<noteq> []"
  using scrape_defaults_when_all_pages_fail [of failed_pages_example]
  by (simp add: failed_pages_example_def default_assessments_def)

lemma scraped_named: "r \<in> set (scrape_shl_assessments pages) \<Longrightarrow> \<not> unnamed r"
  unfolding scrape_shl_assessments_def Let_def unique_assessments_def
  by (rule dedup_loop_named)

text \<open>
  C10: no assessment that \<open>scrape_shl_assessments\<close> returns has an empty name or the
  name \<open>Unknown Product\<close>; so \<open>refresh_assessments\<close>, when it answers, reports an
  \<open>unnamed_count\<close> of 0 and does not schedule \<open>fix_assessment_names\<close>.
\<close>

theorem scraped_names_never_placeholder:
  "(\<forall>r \<in> set (scrape_shl_assessments pages). name r \<noteq> [] \<and> name r \<noteq> ''Unknown Product'') \<and>
   (\<forall>response cache' scheduled.
      refresh_assessments cache pages save_time write_ok = Inr (response, cache', scheduled) \<longrightarrow>
        unnamed_count response = 0 \<and> \<not> scheduled) \<and>
   (\<exists>result. refresh_assessments cache pages save_time True = Inr result)"
proof -
  have named:
    "\<forall>r \<in> set (scrape_shl_assessments pages). name r \<noteq> [] \<and> name r \<noteq> ''Unknown Product''"
    using scraped_named [of _ pages] by (auto simp: unnamed_def)
  then have "filter (\<lambda>a. name a = ''Unknown Product'') (scrape_shl_assessments pages) = []"
    by (auto simp: filter_empty_conv)
  then show ?thesis
    using named by (auto simp: refresh_assessments_def Let_def split: if_splits)
qed

lemma scrape_placeholder_page:
  "scrape_shl_assessments placeholder_page_example =
     [\<lparr>name = ''SHL Assessment - Assessment'',
       url = ''https://www.shl.com/solutions/products/unknown-product/'',
       remote_testing = True, adaptive_support = False,
       duration = ''20-30 minutes'', test_type = ''Assessment''\<rparr>]"
  by code_simp

theorem scraped_names_never_placeholder_witness:
  "scrape_pages placeholder_page_example =
     [\<lparr>name = ''Unknown Product'',
       url = ''https://www.shl.com/solutions/products/unknown-product/'',
       remote_testing = True, adaptive_support = False,
       duration = ''20-30 minutes'', test_type = ''Assessment''\<rparr>] \<and>
   refresh_assessments NoFile placeholder_page_example (Finite 1700000000 0) True =
     Inr (\<lparr>count = 1, unnamed_count = 0\<rparr>,
          Envelope (Some (FloatNumber (Finite 1700000000 0)))
            (Some (scrape_shl_assessments placeholder_page_example)),
          False)"
proof -
  have "scrape_pages placeholder_page_example =
     [\<lparr>name = ''Unknown Product'',
       url = ''https://www.shl.com/solutions/products/unknown-product/'',
       remote_testing = True, adaptive_support = False,
       duration = ''20-30 minutes'', test_type = ''Assessment''\<rparr>]"
    by code_simp
  then show ?thesis
    using scraped_names_never_placeholder [of placeholder_page_example NoFile "Finite 1700000000 0" True]
    by (simp add: refresh_assessments_def Let_def scrape_placeholder_page)
qed

section \<open>Properties of the cache\<close>

























section \<open>Properties of the repair of names\<close>

lemma fix_assessment_frame:
  "fix_assessment a = a\<lparr>name := name (fix_assessment a)\<rparr> \<and>
   (name a \<noteq> ''Unknown Product'' \<longrightarrow> fix_assessment a = a)"
  by (simp add: fix_assessment_def)

text \<open>
  C8: \<open>fix_assessment_names\<close> does nothing when there is no cache file. When it ends
  normally on an envelope, the file holds an envelope with the same value under
  \<open>timestamp\<close>, and the assessments are the old ones one for one: each differs from the
  old one in the name at most, and is the old one when that was not named
  \<open>Unknown Product\<close>. It ends normally whenever the write succeeds.
\<close>

theorem fix_assessment_names_frame:
  "fix_assessment_names NoFile write_ok = Inr NoFile \<and>
   (\<forall>cache'. fix_assessment_names (Envelope ts recs) write_ok = Inr cache' \<longrightarrow>
      (\<exists>recs'. cache' = Envelope ts recs' \<and>
         rel_option (list_all2 (\<lambda>a b. b = a\<lparr>name := name b\<rparr> \<and>
                                    (name a \<noteq> ''Unknown Product'' \<longrightarrow> b = a))) recs recs')) \<and>
   (\<exists>cache'. fix_assessment_names (Envelope ts recs) True = Inr cache')"
proof -
  have "list_all2 (\<lambda>a b. b = a\<lparr>name := name b\<rparr> \<and> (name a \<noteq> ''Unknown Product'' \<longrightarrow> b = a))
          rs (map fix_assessment rs)" for rs
    using fix_assessment_frame by (induction rs) auto
  then have "rel_option (list_all2 (\<lambda>a b. b = a\<lparr>name := name b\<rparr> \<and>
                 (name a \<noteq> ''Unknown Product'' \<longrightarrow> b = a)))
               recs (map_option (map fix_assessment) recs)"
    by (cases recs) simp_all
  then show ?thesis
    by (auto simp: fix_assessment_names_def)
qed

lemma fix_placeholder_cache_example:
  "map fix_assessment placeholder_cache_example =
     [\<lparr>name = ''Verify Interactive'',
       url = ''https://www.shl.com/solutions/products/verify-interactive/'',
       remote_testing = True, adaptive_support = True,
       duration = ''10-15 minutes'', test_type = ''Cognitive ability''\<rparr>,
      \<lparr>name = ''Job Focused Assessments'',
       url = ''https://www.shl.com/solutions/products/view/job-focused-assessments/'',
       remote_testing = True, adaptive_support = False,
       duration = ''20-30 minutes'', test_type = ''Assessment''\<rparr>]"
  by code_simp

theorem fix_assessment_names_frame_witness:
  "fix_assessment_names (Envelope (Some (FloatNumber (Finite 1700000000 0))) (Some placeholder_cache_example))
       True
     = Inr (Envelope (Some (FloatNumber (Finite 1700000000 0)))
              (Some (map fix_assessment placeholder_cache_example))) \<and>
   map name (map fix_assessment placeholder_cache_example)
     = [''Verify Interactive'', ''Job Focused Assessments''] \<and>
   fix_assessment_names NoFile True = Inr NoFile"
  using fix_assessment_names_frame
      [of True "Some (FloatNumber (Finite 1700000000 0))" "Some placeholder_cache_example"]
  by (simp add: fix_assessment_names_def fix_placeholder_cache_example)

section \<open>Properties of the product names\<close>

text \<open>
  C7, as the code has it: the title without the site's suffixes is the name when it is
  not empty and not one of the generic names. When there is no title, or nothing is left
  of it, the name is read from the last segment of the URL that is not empty, not
  \<open>solutions\<close> and not \<open>products\<close>, provided that this gives a name that is not
  empty and not generic. When the title gives a generic name, the URL's segments are not
  read: the name is the one of the category that the URL indicates, or
  \<open>SHL Assessment\<close>; the same holds when neither the title nor the segments give a
  name.
\<close>

theorem resolve_name_precedence:
  "(title_name page_title = Some n \<and> n \<noteq> [] \<and> str_lower n \<notin> set generic_names
      \<longrightarrow> resolve_name page_title u = n) \<and>
   (no_name (title_name page_title) \<and> url_name u = Some n \<and> n \<noteq> []
      \<and> str_lower n \<notin> set generic_names
      \<longrightarrow> resolve_name page_title u = n) \<and>
   (title_name page_title = Some n \<and> n \<noteq> [] \<and> str_lower n \<in> set generic_names
      \<longrightarrow> resolve_name page_title u = category_name u) \<and>
   (no_name (title_name page_title) \<and>
      (url_name u = None \<or> url_name u = Some [] \<or>
       (\<exists>m. url_name u = Some m \<and> str_lower m \<in> set generic_names))
      \<longrightarrow> resolve_name page_title u = category_name u)"
  by (auto simp: resolve_name_def no_name_def Let_def split: option.splits)

lemma title_name_products: "title_name (Some ''Products | SHL'') = Some ''Products''"
  by code_simp

lemma str_lower_products: "str_lower ''Products'' = ''products''"
  by code_simp

lemma url_name_verify:
  "url_name ''https://www.shl.com/solutions/products/verify-interactive/''
     = Some ''Verify Interactive''"
  by code_simp

lemma category_name_verify:
  "category_name ''https://www.shl.com/solutions/products/verify-interactive/''
     = ''SHL Assessment''"
  by code_simp

lemma title_name_opq: "title_name (Some ''OPQ | SHL'') = Some ''OPQ''"
  by code_simp

lemma str_lower_opq: "str_lower ''OPQ'' = ''opq''"
  by code_simp

lemma str_lower_verify: "str_lower ''Verify Interactive'' = ''verify interactive''"
  by code_simp

lemma title_name_only_suffix: "title_name (Some ''SHL'') = Some []"
  by code_simp

text \<open>
  The claim C7 as the specification words it fails for a page whose title is generic:
  the segment \<open>verify-interactive\<close> of the URL would give \<open>Verify Interactive\<close>, and
  the name is \<open>SHL Assessment\<close>.
\<close>

theorem generic_title_skips_url_segment:
  "title_name (Some ''Products | SHL'') = Some ''Products'' \<and>
   str_lower ''Products'' \<in> set generic_names \<and>
   url_name ''https://www.shl.com/solutions/products/verify-interactive/''
     = Some ''Verify Interactive'' \<and>
   resolve_name (Some ''Products | SHL'')
       ''https://www.shl.com/solutions/products/verify-interactive/''
     = ''SHL Assessment''"
  by (simp add: title_name_products str_lower_products url_name_verify category_name_verify
      resolve_name_def no_name_def generic_names_def Let_def)

theorem resolve_name_precedence_witness:
  "resolve_name (Some ''OPQ | SHL'')
       ''https://www.shl.com/solutions/products/verify-interactive/'' = ''OPQ'' \<and>
   resolve_name (Some ''SHL'')
       ''https://www.shl.com/solutions/products/verify-interactive/'' = ''Verify Interactive'' \<and>
   resolve_name (Some ''Products | SHL'')
       ''https://www.shl.com/solutions/products/verify-interactive/''
     = category_name ''https://www.shl.com/solutions/products/verify-interactive/''"
  using resolve_name_precedence [of "Some ''OPQ | SHL''" "''OPQ''"
      "''https://www.shl.com/solutions/products/verify-interactive/''"]
    resolve_name_precedence [of "Some ''SHL''" "''Verify Interactive''"
      "''https://www.shl.com/solutions/products/verify-interactive/''"]
    resolve_name_precedence [of "Some ''Products | SHL''" "''Products''"
      "''https://www.shl.com/solutions/products/verify-interactive/''"]
  by (simp add: title_name_products str_lower_products url_name_verify title_name_opq
      str_lower_opq str_lower_verify title_name_only_suffix generic_names_def no_name_def)

section \<open>The hash table of CPython returns, and holds the keys once each\<close>

text \<open>
  The probe sequence of a key is, once \<open>perturb\<close> has been shifted away, the
  recurrence \<open>i := (5 * i + 1) mod 2^k\<close>, which visits every slot of a table of
  \<open>2^k\<close> slots within \<open>2^k\<close> steps: \<open>2^k\<close> steps of it move a slot by
  \<open>2^k\<close> modulo \<open>2^(k+1)\<close>.
\<close>

lemma pow5_two_power: "\<exists>u. odd u \<and> (5::nat) ^ (2 ^ k) = 1 + 2 ^ (k + 2) * u"
proof (induction k)
  case 0
  have "odd (1::nat) \<and> (5::nat) ^ (2 ^ 0) = 1 + 2 ^ (0 + 2) * 1" by simp
  then show ?case by blast
next
  case (Suc k)
  then obtain u where u: "odd u" "(5::nat) ^ (2 ^ k) = 1 + 2 ^ (k + 2) * u" by blast
  have "(5::nat) ^ (2 ^ Suc k) = (5 ^ (2 ^ k)) ^ 2"
    by (simp add: power_mult [symmetric] mult.commute)
  also have "\<dots> = (1 + 2 ^ (k + 2) * u) ^ 2"
    by (simp only: u(2))
  also have "\<dots> = 1 + 2 ^ (Suc k + 2) * (u + 2 ^ (k + 1) * u ^ 2)"
    by (simp add: power2_eq_square algebra_simps power_add)
  finally have eq: "(5::nat) ^ (2 ^ Suc k) = 1 + 2 ^ (Suc k + 2) * (u + 2 ^ (k + 1) * u ^ 2)" .
  have "odd (u + 2 ^ (k + 1) * u ^ 2)"
    using u(1) by simp
  with eq show ?case by blast
qed

lemma lcg_closed_form: "4 * ((\<lambda>x. 5 * x + 1) ^^ n) j + 1 = 5 ^ n * (4 * j + (1::nat))"
  by (induction n) (simp_all add: algebra_simps)

lemma lcg_half_period:
  "((\<lambda>x. 5 * x + 1) ^^ (2 ^ k)) j mod 2 ^ (k + 1) = (j + 2 ^ k) mod (2 ^ (k + 1) :: nat)"
proof -
  obtain u where u: "odd u" "(5::nat) ^ (2 ^ k) = 1 + 2 ^ (k + 2) * u"
    using pow5_two_power by blast
  let ?g = "((\<lambda>x. 5 * x + 1) ^^ (2 ^ k)) j"
  have "odd (u * (4 * j + 1))"
    using u(1) by simp
  then obtain w where w: "u * (4 * j + 1) = 2 * w + 1"
    by (rule oddE)
  have "4 * ?g + 1 = (1 + 2 ^ (k + 2) * u) * (4 * j + 1)"
    using lcg_closed_form [of "2 ^ k" j] u(2) by simp
  also have "\<dots> = 4 * j + 1 + 4 * (2 ^ k * (u * (4 * j + 1)))"
    by (simp add: algebra_simps power_add)
  finally have "?g = j + 2 ^ k * (u * (4 * j + 1))"
    by simp
  moreover have "2 ^ k * (u * (4 * j + 1)) = 2 ^ k + 2 ^ (k + 1) * w"
    by (simp only: w) (simp add: algebra_simps)
  ultimately have "?g = (j + 2 ^ k) + 2 ^ (k + 1) * w"
    by simp
  then show ?thesis
    by (metis mod_mult_self2)
qed

lemma mod_half: "x < 2 * P \<Longrightarrow> x mod P = (if x < P then x else x - (P::nat))"
  by (simp add: mod_if [of x P])

lemma lcg_reaches:
  "e < 2 ^ k \<Longrightarrow> \<exists>n < 2 ^ k. ((\<lambda>x. 5 * x + 1) ^^ n) i mod 2 ^ k = (e::nat)"
proof (induction k arbitrary: e)
  case 0
  then show ?case by simp
next
  case (Suc k)
  have "e mod 2 ^ k < 2 ^ k" by simp
  from Suc.IH [OF this] obtain n where n: "n < 2 ^ k"
    "((\<lambda>x. 5 * x + 1) ^^ n) i mod 2 ^ k = e mod 2 ^ k" by blast
  let ?j = "((\<lambda>x. 5 * x + 1) ^^ n) i"
  let ?a = "?j mod 2 ^ Suc k"
  have a_mod: "?a mod 2 ^ k = e mod 2 ^ k"
    using n(2) by (simp add: mod_mod_cancel)
  have a_lt: "?a < 2 * 2 ^ k" by simp
  have e_lt: "e < 2 * 2 ^ k" using Suc.prems by simp
  have cases: "?a = e \<or> ?a = e + 2 ^ k \<or> e = ?a + 2 ^ k"
    using a_mod a_lt e_lt mod_half [of ?a "2 ^ k"] mod_half [of e "2 ^ k"]
    by (auto split: if_splits)
  show ?case
  proof (cases "?a = e")
    case True
    then show ?thesis
      using n(1) by (intro exI [of _ n]) simp
  next
    case False
    have "((\<lambda>x. 5 * x + 1) ^^ (2 ^ k + n)) i mod 2 ^ Suc k = (?j + 2 ^ k) mod 2 ^ Suc k"
      using lcg_half_period [of k ?j] by (simp add: funpow_add)
    also have "\<dots> = (?a + 2 ^ k) mod 2 ^ Suc k"
      by (simp add: mod_add_left_eq)
    also have "\<dots> = e"
    proof -
      from cases False have "?a + 2 ^ k = e + 1 * 2 ^ Suc k \<or> ?a + 2 ^ k = e"
        by auto
      then show ?thesis
        using Suc.prems by (auto simp only: mod_mult_self1 mod_less)
    qed
    finally show ?thesis
      using n(1) by (intro exI [of _ "2 ^ k + n"]) simp
  qed
qed

text \<open>
  What a probe returns, how it is affected by a change of an entry it has not visited,
  and that it finds a hit when there is one and the fuel is that of \<open>probe_fuel\<close>.
\<close>

lemma probe_run_Some:
  "probe_run hit t a p = Some s \<Longrightarrow> a \<le> s \<and> s \<le> a + p \<and> hit (t ! s)"
proof (induction hit t a p rule: probe_run.induct)
  case (1 hit entries j probes)
  then show ?case
    by (auto simp: probe_run.simps [of hit entries j] split: if_splits)
qed

lemma probe_run_first: "hit (t ! a) \<Longrightarrow> probe_run hit t a p = Some a"
  by (simp add: probe_run.simps [of hit t a p])

lemma probe_run_update:
  "hit (t ! j) \<Longrightarrow> probe_run hit t a p = r \<Longrightarrow> (r = Some j \<longrightarrow> hit v \<and> j < length t) \<Longrightarrow>
     probe_run hit (t[j := v]) a p = r"
proof (induction hit t a p rule: probe_run.induct)
  case (1 hit entries a probes)
  show ?case
  proof (cases "hit (entries ! a)")
    case True
    then have r: "r = Some a"
      using "1.prems"(2) by (simp add: probe_run.simps [of hit entries a probes])
    have "hit (entries[j := v] ! a)"
      using True r "1.prems"(3) by (cases "a = j") simp_all
    then show ?thesis
      using r by (simp add: probe_run_first)
  next
    case False
    then have "a \<noteq> j"
      using "1.prems"(1) by auto
    then have same: "entries[j := v] ! a = entries ! a"
      by simp
    show ?thesis
    proof (cases "probes = 0")
      case True
      then show ?thesis
        using False same "1.prems"(2)
        by (simp add: probe_run.simps [of hit entries a] probe_run.simps [of hit "entries[j := v]" a])
    next
      case nonzero: False
      have "probe_run hit entries (a + 1) (probes - 1) = r"
        using False nonzero "1.prems"(2) by (simp add: probe_run.simps [of hit entries a probes])
      then have "probe_run hit (entries[j := v]) (a + 1) (probes - 1) = r"
        using "1.IH" [OF False nonzero "1.prems"(1) _ "1.prems"(3)] by simp
      then show ?thesis
        using False same nonzero by (simp add: probe_run.simps [of hit "entries[j := v]" a probes])
    qed
  qed
qed

lemma probe_run_cong:
  "(\<forall>x. a \<le> x \<and> x \<le> a + p \<longrightarrow> hit (t ! x) = hit' (t ! x)) \<Longrightarrow>
     probe_run hit t a p = probe_run hit' t a p"
proof (induction hit t a p rule: probe_run.induct)
  case (1 hit entries a probes)
  have here: "hit (entries ! a) = hit' (entries ! a)"
    using "1.prems" by simp
  show ?case
  proof (cases "hit (entries ! a) \<or> probes = 0")
    case True
    then show ?thesis
      using here
      by (auto simp: probe_run.simps [of hit entries a probes]
          probe_run.simps [of hit' entries a probes])
  next
    case False
    then have "probe_run hit entries (a + 1) (probes - 1)
        = probe_run hit' entries (a + 1) (probes - 1)"
      using "1.prems" by (intro "1.IH") auto
    then show ?thesis
      using here False
      by (simp add: probe_run.simps [of hit entries a probes]
          probe_run.simps [of hit' entries a probes])
  qed
qed

lemma probe_Some:
  "probe fuel hit t i perturb = Some s \<Longrightarrow> i < length t \<Longrightarrow> s < length t \<and> hit (t ! s)"
proof (induction fuel hit t i perturb rule: probe.induct)
  case (1 fuel hit entries i perturb)
  let ?run = "probe_run hit entries i
                (if i + LINEAR_PROBES \<le> length entries - 1 then LINEAR_PROBES else 0)"
  have fuel: "fuel \<noteq> 0"
    using "1.prems"(1) by (auto simp: probe.simps [of _ hit entries i perturb] split: if_splits)
  show ?case
  proof (cases ?run)
    case None
    then have "probe (fuel - 1) hit entries
        ((i * 5 + 1 + perturb div 32) mod length entries) (perturb div 32) = Some s"
      using "1.prems"(1) fuel by (simp add: probe.simps [of fuel hit entries i perturb])
    moreover have "(i * 5 + 1 + perturb div 32) mod length entries < length entries"
      using "1.prems"(2) by (intro mod_less_divisor) auto
    ultimately show ?thesis
      using "1.IH" [OF fuel None] by simp
  next
    case (Some j)
    then have "j = s"
      using "1.prems"(1) fuel by (simp add: probe.simps [of fuel hit entries i perturb])
    then show ?thesis
      using probe_run_Some [OF Some] "1.prems"(2) by (auto split: if_splits)
  qed
qed

lemma probe_update:
  "hit (t ! j) \<Longrightarrow> j < length t \<Longrightarrow> probe fuel hit t i perturb = r \<Longrightarrow>
     (r = Some j \<longrightarrow> hit v) \<Longrightarrow> probe fuel hit (t[j := v]) i perturb = r"
proof (induction fuel hit t i perturb rule: probe.induct)
  case (1 fuel hit entries i perturb)
  let ?p = "if i + LINEAR_PROBES \<le> length entries - 1 then LINEAR_PROBES else 0"
  show ?case
  proof (cases "fuel = 0")
    case True
    then show ?thesis
      using "1.prems"(3)
      by (simp add: probe.simps [of _ hit entries i perturb]
          probe.simps [of _ hit "entries[j := v]" i perturb])
  next
    case fuel: False
    show ?thesis
    proof (cases "probe_run hit entries i ?p")
      case None
      then have run: "probe_run hit (entries[j := v]) i ?p = None"
        using probe_run_update [OF "1.prems"(1) None] by simp
      have "probe (fuel - 1) hit entries
          ((i * 5 + 1 + perturb div 32) mod length entries) (perturb div 32) = r"
        using "1.prems"(3) fuel None by (simp add: probe.simps [of fuel hit entries i perturb])
      then have "probe (fuel - 1) hit (entries[j := v])
          ((i * 5 + 1 + perturb div 32) mod length entries) (perturb div 32) = r"
        using "1.IH" [OF fuel None "1.prems"(1,2) _ "1.prems"(4)] by simp
      then show ?thesis
        using fuel run by (simp add: probe.simps [of fuel hit "entries[j := v]" i perturb])
    next
      case (Some s)
      then have r: "r = Some s"
        using "1.prems"(3) fuel by (simp add: probe.simps [of fuel hit entries i perturb])
      have "probe_run hit (entries[j := v]) i ?p = Some s"
        using probe_run_update [OF "1.prems"(1) Some] "1.prems"(2,4) r by simp
      then show ?thesis
        using fuel r by (simp add: probe.simps [of fuel hit "entries[j := v]" i perturb])
    qed
  qed
qed

lemma probe_cong:
  "(\<forall>x < length t. hit (t ! x) = hit' (t ! x)) \<Longrightarrow> i < length t \<Longrightarrow>
     probe fuel hit t i perturb = probe fuel hit' t i perturb"
proof (induction fuel hit t i perturb rule: probe.induct)
  case (1 fuel hit entries i perturb)
  let ?p = "if i + LINEAR_PROBES \<le> length entries - 1 then LINEAR_PROBES else 0"
  have run: "probe_run hit entries i ?p = probe_run hit' entries i ?p"
    using "1.prems" by (intro probe_run_cong) (auto split: if_splits)
  show ?case
  proof (cases "fuel = 0 \<or> probe_run hit entries i ?p \<noteq> None")
    case True
    then show ?thesis
      using run
      by (auto simp: probe.simps [of fuel hit entries i perturb]
          probe.simps [of fuel hit' entries i perturb])
  next
    case False
    moreover have "(i * 5 + 1 + perturb div 32) mod length entries < length entries"
      using "1.prems"(2) by (intro mod_less_divisor) auto
    ultimately have "probe (fuel - 1) hit entries
          ((i * 5 + 1 + perturb div 32) mod length entries) (perturb div 32)
        = probe (fuel - 1) hit' entries
          ((i * 5 + 1 + perturb div 32) mod length entries) (perturb div 32)"
      using "1.prems"(1) by (intro "1.IH") auto
    then show ?thesis
      using run False
      by (simp add: probe.simps [of fuel hit entries i perturb]
          probe.simps [of fuel hit' entries i perturb])
  qed
qed

lemma probe_lcg:
  "length t = 2 ^ k \<Longrightarrow> hit (t ! (((\<lambda>x. 5 * x + 1) ^^ n) i mod 2 ^ k)) \<Longrightarrow> n < fuel \<Longrightarrow>
     probe fuel hit t (i mod 2 ^ k) 0 \<noteq> None"
proof (induction n arbitrary: i fuel)
  case 0
  then have "probe_run hit t (i mod 2 ^ k)
      (if i mod 2 ^ k + LINEAR_PROBES \<le> length t - 1 then LINEAR_PROBES else 0)
      = Some (i mod 2 ^ k)"
    by (intro probe_run_first) simp
  then show ?case
    using "0.prems"(3) by (simp add: probe.simps [of fuel hit t "i mod 2 ^ k" 0])
next
  case (Suc n)
  have "(5 * (i mod 2 ^ k) + 1) mod 2 ^ k = (5 * i + 1) mod (2 ^ k :: nat)"
    by (metis mod_add_left_eq mod_mult_right_eq)
  then have next_slot:
    "((i mod 2 ^ k) * 5 + 1 + 0 div 32) mod length t = (5 * i + 1) mod 2 ^ k"
    using Suc.prems(1) by (simp add: mult.commute)
  have "((\<lambda>x. 5 * x + 1) ^^ Suc n) i = ((\<lambda>x. 5 * x + 1) ^^ n) (5 * i + 1)"
    by (simp only: funpow_Suc_right o_apply)
  then have "hit (t ! (((\<lambda>x. 5 * x + 1) ^^ n) (5 * i + 1) mod 2 ^ k))"
    using Suc.prems(2) by (simp only:)
  then have "probe (fuel - 1) hit t ((5 * i + 1) mod 2 ^ k) 0 \<noteq> None"
    using Suc.prems(1,3) by (intro Suc.IH) simp_all
  then show ?case
    using Suc.prems(3) next_slot
    by (simp add: probe.simps [of fuel hit t "i mod 2 ^ k" 0] split: option.splits)
qed

lemma probe_finds:
  "length t = 2 ^ k \<Longrightarrow> e < 2 ^ k \<Longrightarrow> hit (t ! e) \<Longrightarrow> i < 2 ^ k \<Longrightarrow> perturb < 32 ^ s \<Longrightarrow>
     s + 2 ^ k \<le> fuel \<Longrightarrow> probe fuel hit t i perturb \<noteq> None"
proof (induction s arbitrary: i perturb fuel)
  case 0
  obtain n where n: "n < 2 ^ k" "((\<lambda>x. 5 * x + 1) ^^ n) i mod 2 ^ k = e"
    using lcg_reaches [OF "0.prems"(2)] by blast
  have "probe fuel hit t (i mod 2 ^ k) 0 \<noteq> None"
    using "0.prems" n by (intro probe_lcg [of t k hit n]) simp_all
  then show ?case
    using "0.prems"(4,5) by simp
next
  case (Suc s)
  have "perturb div 32 < 32 ^ s"
    using Suc.prems(5) by (simp add: less_mult_imp_div_less mult.commute)
  moreover have "(i * 5 + 1 + perturb div 32) mod length t < 2 ^ k"
    using Suc.prems(1) by simp
  ultimately have "probe (fuel - 1) hit t
      ((i * 5 + 1 + perturb div 32) mod length t) (perturb div 32) \<noteq> None"
    using Suc.prems by (intro Suc.IH) simp_all
  then show ?case
    using Suc.prems(6) by (simp add: probe.simps [of fuel hit t i perturb] split: option.splits)
qed

text \<open>Adding keys keeps the table well-formed.\<close>

lemma used_less_free: "used t < length t \<Longrightarrow> \<exists>e < length t. t ! e = None"
proof (rule ccontr)
  assume less: "used t < length t" and none: "\<not> (\<exists>e < length t. t ! e = None)"
  then have "\<forall>x \<in> set t. x \<noteq> None"
    by (metis in_set_conv_nth)
  then have "filter (\<lambda>e. e \<noteq> None) t = t"
    by (simp add: filter_True)
  with less show False
    by (simp add: used_def)
qed

lemma used_update:
  "j < length t \<Longrightarrow> t ! j = None \<Longrightarrow> used (t[j := Some key]) = Suc (used t)"
proof (induction t arbitrary: j)
  case Nil
  then show ?case by simp
next
  case (Cons x t)
  then show ?case
    by (cases j) (auto simp: used_def)
qed

lemma distinct_update:
  "distinct (filter (\<lambda>e. e \<noteq> None) t) \<Longrightarrow> j < length t \<Longrightarrow> t ! j = None \<Longrightarrow>
     Some key \<notin> set t \<Longrightarrow> distinct (filter (\<lambda>e. e \<noteq> None) (t[j := Some key]))"
proof (induction t arbitrary: j)
  case Nil
  then show ?case by simp
next
  case (Cons x t)
  show ?case
  proof (cases j)
    case 0
    then show ?thesis
      using Cons.prems by auto
  next
    case (Suc i)
    have rest: "distinct (filter (\<lambda>e. e \<noteq> None) (t[i := Some key]))"
      using Suc Cons.prems by (intro Cons.IH) (auto split: if_splits)
    show ?thesis
    proof (cases "x = None")
      case True
      then show ?thesis
        using Suc rest by simp
    next
      case False
      then have "x \<notin> set t"
        using Cons.prems(1) by auto
      moreover have "x \<noteq> Some key"
        using Cons.prems(4) by auto
      ultimately have "x \<notin> set (t[i := Some key])"
        using set_update_subset_insert [of t i "Some key"] by auto
      then show ?thesis
        using Suc rest False by simp
    qed
  qed
qed

lemma set_update_keys:
  "j < length t \<Longrightarrow> t ! j = None \<Longrightarrow>
     set (t[j := Some key]) - {None} = insert (Some key) (set t - {None})"
proof (induction t arbitrary: j)
  case Nil
  then show ?case by simp
next
  case (Cons x t)
  then show ?case
    by (cases j) auto
qed

lemma py_hash_bound: "py_hash key < 32 ^ 13"
proof -
  have "py_hash key < 2 ^ 61 - 1"
    by (simp add: py_hash_def)
  then show ?thesis
    by simp
qed

lemma lookup_update:
  "lookup (t[j := v]) key =
     probe (probe_fuel t) (\<lambda>e. e = None \<or> e = Some key) (t[j := v])
       (py_hash key mod length t) (py_hash key)"
  by (simp add: lookup_def probe_fuel_def)

lemma table_insert:
  assumes inv: "table_inv t" and free: "used t < length t"
  shows "\<exists>j. lookup t key = Some j \<and> j < length t \<and>
           (t ! j = Some key \<or>
            t ! j = None \<and> Some key \<notin> set t \<and> table_inv (t[j := Some key]))"
proof -
  obtain k where len: "length t = 2 ^ k"
    using inv by (auto simp: table_inv_def)
  obtain e where e: "e < length t" "t ! e = None"
    using used_less_free [OF free] by blast
  have start: "py_hash key mod length t < 2 ^ k"
    using len by simp
  have "lookup t key \<noteq> None"
    unfolding lookup_def
    using len e start py_hash_bound [of key]
    by (intro probe_finds [of t k e _ _ _ 13]) (simp_all add: probe_fuel_def)
  then obtain j where j: "lookup t key = Some j"
    by blast
  have j_props: "j < length t" "t ! j = None \<or> t ! j = Some key"
    using probe_Some [OF j [unfolded lookup_def]] start len by simp_all
  show ?thesis
  proof (cases "t ! j = Some key")
    case True
    then show ?thesis
      using j j_props by blast
  next
    case False
    then have empty: "t ! j = None"
      using j_props by blast
    have notin: "Some key \<notin> set t"
    proof
      assume "Some key \<in> set t"
      then obtain s where "lookup t key = Some s" "t ! s = Some key"
        using inv by (auto simp: table_inv_def)
      then show False
        using j empty by simp
    qed
    have found: "\<exists>s. lookup (t[j := Some key]) key' = Some s \<and> t[j := Some key] ! s = Some key'"
      if member: "Some key' \<in> set (t[j := Some key])" for key'
    proof (cases "Some key' \<in> set t")
      case True
      then obtain s where s: "lookup t key' = Some s" "t ! s = Some key'"
        using inv by (auto simp: table_inv_def)
      then have "s \<noteq> j"
        using empty by auto
      then have "lookup (t[j := Some key]) key' = Some s"
        unfolding lookup_update
        using s(1) [unfolded lookup_def] empty j_props(1)
        by (intro probe_update) simp_all
      then show ?thesis
        using s(2) \<open>s \<noteq> j\<close> by auto
    next
      case False
      then have "key' = key"
        using member set_update_subset_insert [of t j "Some key"] by auto
      have "lookup (t[j := Some key]) key = Some j"
        unfolding lookup_update
        using j [unfolded lookup_def] empty j_props(1)
        by (intro probe_update) simp_all
      then show ?thesis
        using \<open>key' = key\<close> j_props(1) by auto
    qed
    have "table_inv (t[j := Some key])"
      unfolding table_inv_def
      using len inv distinct_update [OF _ j_props(1) empty notin] found
      by (auto simp: table_inv_def)
    then show ?thesis
      using j j_props(1) empty notin by blast
  qed
qed

lemma set_insert_clean_lookup:
  assumes "Some key \<notin> set t" and "0 < length t"
  shows "set_insert_clean t key =
           (case lookup t key of None \<Rightarrow> None | Some j \<Rightarrow> Some (t[j := Some key]))"
proof -
  have "probe (probe_fuel t) (\<lambda>e. e = None) t (py_hash key mod length t) (py_hash key)
      = lookup t key"
  proof -
    have "\<forall>x < length t. t ! x \<noteq> Some key"
      using assms(1) by (metis nth_mem)
    then show ?thesis
      unfolding lookup_def
      using assms(2) by (intro probe_cong) auto
  qed
  then show ?thesis
    by (simp add: set_insert_clean_def)
qed

lemma insert_all_clean_ok:
  "table_inv new \<Longrightarrow> distinct (filter (\<lambda>e. e \<noteq> None) old) \<Longrightarrow>
   (\<forall>key. Some key \<in> set old \<longrightarrow> Some key \<notin> set new) \<Longrightarrow>
   used new + used old < length new \<Longrightarrow>
     \<exists>t. insert_all_clean new old = Some t \<and> table_inv t \<and> length t = length new \<and>
         used t = used new + used old \<and>
         set t - {None} = (set new - {None}) \<union> (set old - {None})"
proof (induction new old rule: insert_all_clean.induct)
  case (1 newtable)
  then show ?case by (simp add: used_def)
next
  case (2 newtable oldtable)
  then show ?case by (simp add: used_def)
next
  case (3 newtable key oldtable)
  have notin: "Some key \<notin> set newtable"
    using "3.prems"(3) by simp
  have free: "used newtable < length newtable"
    using "3.prems"(4) by simp
  obtain j where j0: "lookup newtable key = Some j" "j < length newtable"
      "newtable ! j = Some key \<or>
       newtable ! j = None \<and> Some key \<notin> set newtable \<and> table_inv (newtable[j := Some key])"
    using table_insert [OF "3.prems"(1) free, of key] by blast
  have "newtable ! j \<noteq> Some key"
    using notin j0(2) by (metis nth_mem)
  then have j: "lookup newtable key = Some j" "j < length newtable"
      "newtable ! j = None" "table_inv (newtable[j := Some key])"
    using j0 by simp_all
  let ?t = "newtable[j := Some key]"
  have "0 < length newtable"
    using j(2) by auto
  then have clean: "set_insert_clean newtable key = Some ?t"
    using set_insert_clean_lookup [OF notin] j(1) by simp
  have used_t: "used ?t = Suc (used newtable)"
    using used_update [OF j(2,3)] .
  have keys_t: "set ?t - {None} = insert (Some key) (set newtable - {None})"
    using set_update_keys [OF j(2,3)] .
  have "Some key \<notin> set oldtable"
    using "3.prems"(2) by simp
  then have disjoint: "\<forall>key'. Some key' \<in> set oldtable \<longrightarrow> Some key' \<notin> set ?t"
    using "3.prems"(3) keys_t by auto
  have "\<exists>t. insert_all_clean ?t oldtable = Some t \<and> table_inv t \<and> length t = length ?t \<and>
         used t = used ?t + used oldtable \<and>
         set t - {None} = (set ?t - {None}) \<union> (set oldtable - {None})"
    using "3.prems"(2,4) used_t disjoint
    by (intro "3.IH" [OF clean j(4)]) (simp_all add: used_def)
  then show ?case
    using clean used_t keys_t by (auto simp: used_def)
qed

lemma new_size_props:
  "0 < n \<Longrightarrow> m < new_size n m \<and> (\<exists>d. new_size n m = n * 2 ^ d)"
proof (induction n m rule: new_size.induct)
  case (1 newsize minused)
  show ?case
  proof (cases "newsize \<le> minused")
    case True
    then have "minused < new_size (2 * newsize) minused \<and>
        (\<exists>d. new_size (2 * newsize) minused = 2 * newsize * 2 ^ d)"
      using "1.prems" by (intro "1.IH") simp_all
    then obtain d where d: "minused < new_size (2 * newsize) minused"
      "new_size (2 * newsize) minused = 2 * newsize * 2 ^ d"
      by blast
    have "new_size newsize minused = new_size (2 * newsize) minused"
      using True "1.prems" by (simp add: new_size.simps [of newsize minused])
    then show ?thesis
      using d by (intro conjI exI [of _ "Suc d"]) simp_all
  next
    case False
    then have "new_size newsize minused = newsize * 2 ^ 0" "minused < new_size newsize minused"
      by (simp_all add: new_size.simps [of newsize minused])
    then show ?thesis by blast
  qed
qed

lemma table_inv_empty: "table_inv (replicate (2 ^ k) None)"
  by (auto simp: table_inv_def)

lemma set_add_entry_ok:
  assumes inv: "set_inv so"
  shows "\<exists>so'. set_add_entry so key = Some so' \<and> set_inv so' \<and>
           set (so_table so') - {None} = insert (Some key) (set (so_table so) - {None})"
proof -
  let ?t = "so_table so"
  have t_inv: "table_inv ?t" and fill: "so_fill so = used ?t"
    and load: "so_fill so * 5 < (length ?t - 1) * 3"
    using inv by (simp_all add: set_inv_def)
  have free: "used ?t < length ?t"
    using fill load by simp
  obtain j where j: "lookup ?t key = Some j" "j < length ?t"
    and slot: "?t ! j = Some key \<or>
               ?t ! j = None \<and> Some key \<notin> set ?t \<and> table_inv (?t[j := Some key])"
    using table_insert [OF t_inv free, of key] by blast
  have unfold: "set_add_entry so key =
      (if ?t ! j = Some key then Some so
       else (let so1 = \<lparr>so_table = ?t[j := Some key], so_fill = so_fill so + 1\<rparr>
             in if so_fill so1 * 5 < (length (so_table so1) - 1) * 3 then Some so1
                else set_table_resize so1
                       (if 50000 < so_fill so1 then so_fill so1 * 2 else so_fill so1 * 4)))"
    using j(1) by (simp add: set_add_entry_def lookup_def)
  show ?thesis
  proof (cases "?t ! j = Some key")
    case True
    then have "Some key \<in> set ?t"
      using j(2) by (metis nth_mem)
    then show ?thesis
      using True unfold inv by auto
  next
    case False
    then have empty: "?t ! j = None" and t1_inv: "table_inv (?t[j := Some key])"
      using slot by simp_all
    let ?t1 = "?t[j := Some key]"
    let ?so1 = "\<lparr>so_table = ?t1, so_fill = so_fill so + 1\<rparr>"
    have used1: "used ?t1 = so_fill so + 1"
      using used_update [OF j(2) empty] fill by simp
    have keys1: "set ?t1 - {None} = insert (Some key) (set ?t - {None})"
      using set_update_keys [OF j(2) empty] .
    show ?thesis
    proof (cases "(so_fill so + 1) * 5 < (length ?t - 1) * 3")
      case True
      then have "set_add_entry so key = Some ?so1"
        using False unfold by simp
      moreover have "set_inv ?so1"
        using True t1_inv used1 by (simp add: set_inv_def)
      ultimately show ?thesis
        using keys1 by auto
    next
      case full: False
      define minused
        where "minused = (if 50000 < so_fill so + 1 then (so_fill so + 1) * 2
                          else (so_fill so + 1) * 4)"
      define n where "n = new_size PySet_MINSIZE minused"
      have enough: "(so_fill so + 1) * 2 \<le> minused"
        by (simp add: minused_def)
      obtain d where size: "minused < n" "n = 2 ^ (d + 3)"
        using new_size_props [of PySet_MINSIZE minused]
        by (auto simp: n_def PySet_MINSIZE_def power_add mult.commute)
      have "\<exists>t. insert_all_clean (replicate n None) ?t1 = Some t \<and> table_inv t \<and>
            length t = length (replicate n None :: nat option list) \<and>
            used t = used (replicate n None) + used ?t1 \<and>
            set t - {None} = (set (replicate n None) - {None}) \<union> (set ?t1 - {None})"
      proof (intro insert_all_clean_ok)
        show "table_inv (replicate n None)"
          using table_inv_empty [of "d + 3"] size(2) by simp
        show "distinct (filter (\<lambda>e. e \<noteq> None) ?t1)"
          using t1_inv by (simp add: table_inv_def)
        show "\<forall>key. Some key \<in> set ?t1 \<longrightarrow> Some key \<notin> set (replicate n None :: nat option list)"
          by simp
        show "used (replicate n None) + used ?t1 < length (replicate n None :: nat option list)"
          using size(1) used1 enough by (simp add: used_def)
      qed
      then obtain t where t0: "insert_all_clean (replicate n None) ?t1 = Some t" "table_inv t"
          "length t = length (replicate n None :: nat option list)"
          "used t = used (replicate n None) + used ?t1"
          "set t - {None} = (set (replicate n None) - {None}) \<union> (set ?t1 - {None})"
        by blast
      have "used (replicate n None) = 0"
        by (simp add: used_def)
      moreover have "set (replicate n None) - {None} = ({} :: nat option set)"
        by auto
      ultimately have t: "insert_all_clean (replicate n None) ?t1 = Some t" "table_inv t"
          "length t = n" "used t = used ?t1" "set t - {None} = set ?t1 - {None}"
        using t0 by auto
      have "set_table_resize ?so1 minused = Some (?so1\<lparr>so_table := t\<rparr>)"
        using t(1) by (simp add: set_table_resize_def n_def)
      moreover have "set_add_entry so key = set_table_resize ?so1 minused"
        using False full unfold by (simp add: Let_def minused_def)
      ultimately have "set_add_entry so key = Some (?so1\<lparr>so_table := t\<rparr>)"
        by simp
      moreover have "set_inv (?so1\<lparr>so_table := t\<rparr>)"
        using t(2,3,4) used1 size(1) enough by (simp add: set_inv_def)
      ultimately show ?thesis
        using t(5) keys1 by auto
    qed
  qed
qed

lemma set_update_ok:
  "set_inv so \<Longrightarrow>
     \<exists>so'. set_update so keys = Some so' \<and> set_inv so' \<and>
        set (so_table so') - {None} = Some ` set keys \<union> (set (so_table so) - {None})"
proof (induction keys arbitrary: so)
  case Nil
  then show ?case by simp
next
  case (Cons key keys)
  obtain so1 where so1: "set_add_entry so key = Some so1" "set_inv so1"
      "set (so_table so1) - {None} = insert (Some key) (set (so_table so) - {None})"
    using set_add_entry_ok [OF Cons.prems, of key] by blast
  obtain so2 where "set_update so1 keys = Some so2" "set_inv so2"
      "set (so_table so2) - {None} = Some ` set keys \<union> (set (so_table so1) - {None})"
    using Cons.IH [OF so1(2)] by blast
  then show ?case
    using so1 by auto
qed

lemma set_inv_empty_set: "set_inv empty_set"
  using table_inv_empty [of 3]
  by (simp add: set_inv_def empty_set_def PySet_MINSIZE_def used_def)

text \<open>
  The loops of the hash table end within the fuel given, for every list of keys; so
  \<open>cpython_list_set\<close> is \<open>list(set(xs))\<close> of CPython: it has every element of
  \<open>xs\<close>, once.
\<close>

theorem cpython_list_set_correct:
  "(\<exists>so. set_update empty_set xs = Some so) \<and>
   distinct (cpython_list_set xs) \<and> set (cpython_list_set xs) = set xs"
proof -
  obtain so where so: "set_update empty_set xs = Some so" "set_inv so"
      "set (so_table so) - {None} = Some ` set xs \<union> (set (so_table empty_set) - {None})"
    using set_update_ok [OF set_inv_empty_set, of xs] by blast
  have keys: "set (so_table so) - {None} = Some ` set xs"
    using so(3) by (simp add: empty_set_def PySet_MINSIZE_def)
  have list: "cpython_list_set xs = map the (filter (\<lambda>e. e \<noteq> None) (so_table so))"
    using so(1) by (simp add: cpython_list_set_def List.map_filter_def comp_def)
  have "distinct (filter (\<lambda>e. e \<noteq> None) (so_table so))"
    using so(2) by (simp add: set_inv_def table_inv_def)
  then have "distinct (cpython_list_set xs)"
    unfolding list by (auto simp: distinct_map inj_on_def)
  moreover have "set (filter (\<lambda>e. e \<noteq> None) (so_table so)) = Some ` set xs"
    using keys by auto
  then have "set (cpython_list_set xs) = set xs"
    unfolding list by (simp add: image_image)
  ultimately show ?thesis
    using so(1) by blast
qed

section \<open>Properties of the recommendations\<close>

lemma replicate_numeral: "replicate (numeral k) x = x # replicate (pred_numeral k) x"
  by (simp add: numeral_eq_Suc)

lemmas set_eval = cpython_list_set_def empty_set_def set_add_entry_def probe.simps
  probe_run.simps probe_fuel_def py_hash_def LINEAR_PROBES_def PySet_MINSIZE_def Let_def
  List.map_filter_def set_table_resize_def new_size.simps set_insert_clean_def
  replicate_numeral

lemma cpython_list_set_Nil: "cpython_list_set [] = []"
  by (simp add: set_eval)

lemma cpython_list_set_0_1: "cpython_list_set [0, 1] = [0, 1]"
  by (simp add: set_eval)

lemma cpython_list_set_8_1_0: "cpython_list_set [8, 1, 0] = [8, 1, 0]"
  by (simp add: set_eval)

lemma digit_runs_no_digit: "filter is_digit s = [] \<Longrightarrow> digit_runs [] s = []"
  by (induction s) (auto split: if_splits)

lemma findall_scenario: "findall_digits ''I recommend 0 and also 1'' = [''0'', ''1'']"
  by (simp add: findall_digits_def is_digit_def digits_def)

lemma findall_8_1_0: "findall_digits ''8 1 0'' = [''8'', ''1'', ''0'']"
  by (simp add: findall_digits_def is_digit_def digits_def)

lemma ints_scenario: "int_list m (findall_digits ''I recommend 0 and also 1'') = Inr [0, 1]"
  by (simp add: findall_scenario py_int_def digit_value_def digits_def)

lemma ints_8_1_0: "int_list m (findall_digits ''8 1 0'') = Inr [8, 1, 0]"
  by (simp add: findall_8_1_0 py_int_def digit_value_def digits_def)

lemma int_list_no_limit: "\<exists>ns. int_list 0 ss = Inr ns"
  by (induction ss) (auto simp: py_int_def)

lemma scenario_on_cpython:
  "get_recommendations_async cpython_list_set m default_assessments
     (Reply ''I recommend 0 and also 1'') = Inr default_assessments"
  unfolding get_recommendations_async_def model_response.case ints_scenario sum.case
    cpython_list_set_0_1
  by (simp add: default_assessments_def)

text \<open>
  C1: whatever the catalog, the reply and the order in which the interpreter iterates a
  set, a list of recommendations that \<open>get_recommendations_async\<close> returns has at most
  10 assessments, and each of them is the assessment at an index of \<open>assessments_data\<close>
  that is within its bounds. With no limit on the length of a decimal string, every reply
  gives such a list.
\<close>

theorem recommendations_bounded_and_from_catalog:
  "(\<forall>recs. get_recommendations_async list_set max_str_digits assessments_data response
              = Inr recs \<longrightarrow>
      length recs \<le> 10 \<and>
      (\<forall>r \<in> set recs. \<exists>i < length assessments_data. r = assessments_data ! i)) \<and>
   (\<exists>recs. get_recommendations_async list_set 0 assessments_data (Reply ids_text) = Inr recs)"
proof -
  have "\<exists>recs. get_recommendations_async list_set 0 assessments_data (Reply ids_text) = Inr recs"
    using int_list_no_limit [of "findall_digits ids_text"]
    by (auto simp: get_recommendations_async_def Let_def)
  moreover have "length (filter P (take 10 xs)) \<le> 10" for P and xs :: "nat list"
    using length_filter_le [of P "take 10 xs"] by simp
  ultimately show ?thesis
    by (auto simp: get_recommendations_async_def Let_def
        split: model_response.splits sum.splits)
qed

theorem recommendations_bounded_and_from_catalog_witness:
  "get_recommendations_async cpython_list_set 4300 default_assessments
     (Reply ''I recommend 0 and also 1'') = Inr default_assessments \<and>
   length default_assessments \<le> 10"
  using recommendations_bounded_and_from_catalog
      [of cpython_list_set 4300 default_assessments "Reply ''I recommend 0 and also 1''"]
  by (simp add: scenario_on_cpython)

text \<open>
  C3, as the code has it: a reply without any digit gives the empty list of
  recommendations, and no error, provided that the interpreter's \<open>list(set([]))\<close> is
  the empty list.
\<close>

theorem no_digits_gives_empty_list:
  "list_set [] = [] \<Longrightarrow> filter is_digit ids_text = [] \<Longrightarrow>
   get_recommendations_async list_set max_str_digits assessments_data (Reply ids_text) = Inr []"
  by (simp add: get_recommendations_async_def findall_digits_def digit_runs_no_digit)

text \<open>
  The claim C3 as the specification words it fails: the reply \<open>none\<close> has no digit, and
  the request succeeds with no recommendation.
\<close>

theorem no_digits_is_not_an_error:
  "filter is_digit ''none'' = [] \<and>
   get_recommendations_async cpython_list_set 4300 default_assessments (Reply ''none'') = Inr []"
  by (simp add: get_recommendations_async_def findall_digits_def is_digit_def digits_def
      cpython_list_set_Nil)

theorem no_digits_gives_empty_list_witness:
  "filter is_digit ''No assessment fits.'' = [] \<and>
   get_recommendations_async cpython_list_set 4300 default_assessments
     (Reply ''No assessment fits.'') = Inr []"
proof -
  have no_digit: "filter is_digit ''No assessment fits.'' = []"
    by (simp add: is_digit_def digits_def)
  show ?thesis
    using no_digits_gives_empty_list
        [of cpython_list_set "''No assessment fits.''" 4300 default_assessments]
      cpython_list_set_Nil no_digit
    by simp
qed

lemma filter_take_sorted:
  "sorted xs \<Longrightarrow> filter (\<lambda>i. i < n) (take k xs) = take k (filter (\<lambda>i. i < (n::nat)) xs)"
proof (induction xs arbitrary: k)
  case Nil
  show ?case by simp
next
  case (Cons x xs)
  show ?case
  proof (cases "x < n")
    case True
    with Cons show ?thesis by (cases k) simp_all
  next
    case False
    then have "\<forall>y \<in> set (x # xs). \<not> y < n"
      using Cons.prems by auto
    then have "filter (\<lambda>i. i < n) (x # xs) = []"
      and "filter (\<lambda>i. i < n) (take k (x # xs)) = []"
      by (auto simp: filter_empty_conv dest: in_set_takeD)
    then show ?thesis by simp
  qed
qed

text \<open>
  C4, as the code has it. Let the interpreter's \<open>list(set(...))\<close> give the integers of
  the reply without repetition. The integers are taken in the order in which the set is
  iterated; the first ten are kept; of these, the ones that are not an index of the
  catalog are dropped; the assessments at the others are returned in that order, none
  twice. All of the reply's indices of the catalog are served when the reply has at most
  ten different integers. When the set is iterated in ascending order, the result is the
  selection of the specification. CPython's \<open>list(set(...))\<close> is such an order
  (\<open>cpython_list_set_correct\<close>), and on it the reply \<open>I recommend 0 and also 1\<close>
  against the two default assessments gives these two, in this order.
\<close>

theorem recommendations_in_set_order:
  assumes ints: "int_list max_str_digits (findall_digits ids_text) = Inr ints"
    and order: "distinct (list_set ints)" "set (list_set ints) = set ints"
  shows "(\<exists>ids. get_recommendations_async list_set max_str_digits assessments_data
                  (Reply ids_text)
              = Inr (map (\<lambda>id. assessments_data ! id) ids) \<and>
           ids = filter (\<lambda>id. id < length assessments_data) (take 10 (list_set ints)) \<and>
           distinct ids \<and> length ids \<le> 10 \<and>
           set ids \<subseteq> {id \<in> set ints. id < length assessments_data} \<and>
           (length (list_set ints) \<le> 10 \<longrightarrow>
              set ids = {id \<in> set ints. id < length assessments_data}) \<and>
           (sorted (list_set ints) \<longrightarrow>
              map (\<lambda>id. assessments_data ! id) ids = spec_selection assessments_data ints)) \<and>
         get_recommendations_async cpython_list_set max_str_digits default_assessments
           (Reply ''I recommend 0 and also 1'') = Inr default_assessments"
proof -
  let ?n = "length assessments_data"
  let ?ids = "filter (\<lambda>id. id < ?n) (take 10 (list_set ints))"
  have result:
    "get_recommendations_async list_set max_str_digits assessments_data (Reply ids_text)
      = Inr (map (\<lambda>id. assessments_data ! id) ?ids)"
    by (simp add: get_recommendations_async_def ints)
  have dist: "distinct ?ids"
    using order(1) by simp
  have len: "length ?ids \<le> 10"
    using length_filter_le [of "\<lambda>id. id < ?n" "take 10 (list_set ints)"] by simp
  have sub: "set ?ids \<subseteq> {id \<in> set ints. id < ?n}"
    using order(2) by (auto dest: in_set_takeD)
  have all: "length (list_set ints) \<le> 10 \<longrightarrow> set ?ids = {id \<in> set ints. id < ?n}"
    using order(2) by auto
  have asc: "map (\<lambda>id. assessments_data ! id) ?ids = spec_selection assessments_data ints"
    if "sorted (list_set ints)"
  proof -
    have "list_set ints = sort (remdups ints)"
      using that order by (intro sorted_distinct_set_unique) simp_all
    then have "?ids = take 10 (sort (remdups (filter (\<lambda>id. id < ?n) ints)))"
      using that by (simp add: filter_take_sorted filter_sort remdups_filter)
    then show ?thesis
      by (simp add: spec_selection_def)
  qed
  show ?thesis
    using result dist len sub all asc scenario_on_cpython [of max_str_digits] by blast
qed

text \<open>
  The claim C4 as the specification words it fails on CPython: for the reply \<open>8 1 0\<close>
  against the two default assessments, the set of the three integers is iterated in the
  order 8, 1, 0, so the second assessment is returned before the first.
\<close>

theorem recommendations_not_ascending:
  "get_recommendations_async cpython_list_set 4300 default_assessments (Reply ''8 1 0'')
     = Inr [default_assessments ! 1, default_assessments ! 0] \<and>
   spec_selection default_assessments [8, 1, 0]
     = [default_assessments ! 0, default_assessments ! 1] \<and>
   default_assessments ! 1 \<noteq> default_assessments ! 0"
  unfolding get_recommendations_async_def model_response.case ints_8_1_0 sum.case
    cpython_list_set_8_1_0
  by (simp add: spec_selection_def default_assessments_def)

theorem recommendations_in_set_order_witness:
  "int_list 4300 (findall_digits ''I recommend 0 and also 1'') = Inr [0, 1] \<and>
   distinct (cpython_list_set [0, 1]) \<and>
   set (cpython_list_set [0, 1]) = set [0, 1] \<and>
   sorted (cpython_list_set [0, 1]) \<and>
   get_recommendations_async cpython_list_set 4300 default_assessments
       (Reply ''I recommend 0 and also 1'')
     = Inr (spec_selection default_assessments [0, 1])"
proof -
  have order: "distinct (cpython_list_set [0, 1])" "set (cpython_list_set [0, 1]) = set [0, 1]"
    and asc: "sorted (cpython_list_set [0, 1])"
    unfolding cpython_list_set_0_1 by simp_all
  from recommendations_in_set_order
      [of 4300 "''I recommend 0 and also 1''" "[0, 1]" cpython_list_set default_assessments]
    ints_scenario [of 4300] order asc
  have "get_recommendations_async cpython_list_set 4300 default_assessments
       (Reply ''I recommend 0 and also 1'')
     = Inr (spec_selection default_assessments [0, 1])"
    by auto
  then show ?thesis
    using ints_scenario [of 4300] order asc by simp
qed

end
